theory Spec2Isabelle
  imports Main "HOL-Library.Sublist"
begin

section \<open>Text stripper\<close>

text \<open>
  Both source files remove HTML tags with one call of Python's \<^verbatim>\<open>re.sub\<close>:
  \<^verbatim>\<open>re.sub("<(?!img).*?>", "", txt)\<close> and, when \<^verbatim>\<open>preserve_br\<close> is set,
  \<^verbatim>\<open>re.sub("<(?!img|br).*?>", "", txt)\<close>. No flag is passed, so \<^verbatim>\<open>.\<close> matches every
  character except the line feed. A Python string is modelled as a \<^typ>\<open>string\<close>. The
  characters the pattern tests (\<^verbatim>\<open><\<close>, \<^verbatim>\<open>>\<close>, the line feed and the letters of
  \<^verbatim>\<open>img\<close> and \<^verbatim>\<open>br\<close>) are ASCII; a code point outside ASCII is a run of
  characters none of which is one of these, so it is copied or dropped as a whole.
\<close>

definition newline :: char where
  "newline = CHR 0x0A"


definition apostrophe :: char where
  "apostrophe = CHR 0x27"

text \<open>
  \<^verbatim>\<open>.*?>\<close> tried at the start of a text: the lazy star takes as few characters as it
  can, so the match ends at the first \<^verbatim>\<open>>\<close>, and it fails when a line feed (which
  \<^verbatim>\<open>.\<close> refuses) or the end of the text comes first. The result is the text after
  the match.
\<close>

fun dot_star_lazy_gt :: "string \<Rightarrow> string option" where
  "dot_star_lazy_gt [] = None"
| "dot_star_lazy_gt (c # cs) =
     (if c = CHR ''>'' then Some cs
      else if c = newline then None
      else dot_star_lazy_gt cs)"

text \<open>
  The negative lookahead \<^verbatim>\<open>(?!img|br)\<close>: it fails when the text that follows starts
  with one of the alternatives.
\<close>

definition lookahead :: "string list \<Rightarrow> string \<Rightarrow> bool" where
  "lookahead alts cs = list_ex (\<lambda>p. prefix p cs) alts"

text \<open>
  The whole pattern \<^verbatim>\<open><(?!alts).*?>\<close> tried at the start of a text; the result is
  the text after the match.
\<close>

fun match_tag :: "string list \<Rightarrow> string \<Rightarrow> string option" where
  "match_tag alts [] = None"
| "match_tag alts (c # cs) =
     (if c = CHR ''<'' \<and> \<not> lookahead alts cs then dot_star_lazy_gt cs else None)"

text \<open>
  \<^verbatim>\<open>re.sub(pattern, "", txt)\<close>: scan from the left; where the pattern matches, drop
  the match and go on after it; elsewhere copy one character and go on at the next.
  The pattern never matches the empty string.
\<close>

function re_sub_tag :: "string list \<Rightarrow> string \<Rightarrow> string" where
  "re_sub_tag alts [] = []"
| "re_sub_tag alts (c # cs) =
     (case match_tag alts (c # cs) of
        Some rest \<Rightarrow> re_sub_tag alts rest
      | None \<Rightarrow> c # re_sub_tag alts cs)"
  by pat_completeness auto
termination
proof (relation "measure (\<lambda>(alts, s). length s)")
  show "wf (measure (\<lambda>(alts, s). length s))"
    by simp
next
  fix alts :: "string list" and c :: char and cs rest :: string
  assume m: "match_tag alts (c # cs) = Some rest"
  have shorter: "dot_star_lazy_gt xs = Some ys \<Longrightarrow> length ys < length xs" for xs ys
    by (induction xs) (auto split: if_splits)
  from m have "dot_star_lazy_gt cs = Some rest"
    by (simp split: if_splits)
  then have "length rest < length cs"
    by (rule shorter)
  then show "((alts, rest), (alts, c # cs)) \<in> measure (\<lambda>(alts, s). length s)"
    by simp
next
  fix alts :: "string list" and c :: char and cs :: string
  show "((alts, cs), (alts, c # cs)) \<in> measure (\<lambda>(alts, s). length s)"
    by simp
qed

text \<open>\<^verbatim>\<open>stripFormatting(txt, preserve_br=False)\<close> of \<^verbatim>\<open>bulk_clear_formatting.py\<close>.\<close>

definition stripFormatting :: "string \<Rightarrow> bool \<Rightarrow> string" where
  "stripFormatting txt preserve_br =
     (if preserve_br then re_sub_tag [''img'', ''br''] txt
      else re_sub_tag [''img''] txt)"

text \<open>\<^verbatim>\<open>stripFormatting(txt)\<close> of \<^verbatim>\<open>__init__.py\<close>, the one-argument version.\<close>

definition stripFormatting_legacy :: "string \<Rightarrow> string" where
  "stripFormatting_legacy txt = re_sub_tag [''img''] txt"

subsection \<open>Predicates on texts used in the statements\<close>

text \<open>No position of the text starts a match of the pattern.\<close>

fun no_match :: "string list \<Rightarrow> string \<Rightarrow> bool" where
  "no_match alts [] = True"
| "no_match alts (c # cs) = (match_tag alts (c # cs) = None \<and> no_match alts cs)"

text \<open>
  The text has a substring of the form \<^verbatim>\<open><...>\<close>: a \<^verbatim>\<open><\<close> with a \<^verbatim>\<open>>\<close> somewhere
  after it. It is enough to look after the first \<^verbatim>\<open><\<close>.
\<close>

fun has_tag :: "string \<Rightarrow> bool" where
  "has_tag [] = False"
| "has_tag (c # cs) = (if c = CHR ''<'' then CHR ''>'' \<in> set cs else has_tag cs)"



section \<open>Bulk-edit workflow\<close>

text \<open>
  The host application is modelled by what the add-on reads and calls. A note, as
  \<^verbatim>\<open>mw.col.get_note(nid)\<close> returns it, has its field values
  (\<^verbatim>\<open>note.fields\<close>) and its note type;
  \<^verbatim>\<open>note_type\<close> holds \<^verbatim>\<open>mw.col.models.field_names(note.note_type())\<close>, and is
  \<open>None\<close> when \<^verbatim>\<open>note.note_type()\<close> returns \<^verbatim>\<open>None\<close>.
\<close>

record Note =
  note_fields :: "string list"
  note_type :: "string list option"

type_synonym note_id = nat

text \<open>The calls the add-on makes to the host, in the order they are made.\<close>

datatype host_call =
    AskUser string
  | Checkpoint string
  | ProgressStart
  | Flush note_id
  | ProgressFinish
  | Reset
  | Close
  | Tooltip string

record host =
  col :: "note_id \<rightharpoonup> Note"
  calls :: "host_call list"

datatype error = NotFoundError | TypeError | ValueError | IndexError

definition call :: "host_call \<Rightarrow> host \<Rightarrow> host" where
  "call c h = h\<lparr>calls := calls h @ [c]\<rparr>"

text \<open>\<^verbatim>\<open>note.flush()\<close>: the host stores the note's current field values.\<close>

definition flush :: "note_id \<Rightarrow> Note \<Rightarrow> host \<Rightarrow> host" where
  "flush nid n h = h\<lparr>col := (col h)(nid \<mapsto> n), calls := calls h @ [Flush nid]\<rparr>"

text \<open>Python's \<^verbatim>\<open>str(n)\<close> of a length, as the f-strings format it.\<close>

definition digit :: "nat \<Rightarrow> char" where
  "digit d = ''0123456789'' ! d"

function str_nat :: "nat \<Rightarrow> string" where
  "str_nat n = (if n < 10 then [digit n] else str_nat (n div 10) @ [digit (n mod 10)])"
  by pat_completeness auto
termination
  by (relation "measure (\<lambda>n. n)") auto

declare str_nat.simps [simp del]

text \<open>\<^verbatim>\<open>list.index(x)\<close>: the first position of \<open>x\<close>, ValueError (\<open>None\<close>) when absent.\<close>

fun index :: "'a list \<Rightarrow> 'a \<Rightarrow> nat option" where
  "index [] x = None"
| "index (y # ys) x = (if y = x then Some 0 else map_option Suc (index ys x))"

text \<open>
  The loop \<^verbatim>\<open>for i, field in enumerate(note.fields)\<close> of the all-fields branch, from
  position \<open>i\<close> on: it returns the note's fields and the counter.
\<close>

fun clear_fields :: "bool \<Rightarrow> string list \<Rightarrow> nat \<Rightarrow> string list \<times> nat" where
  "clear_fields preserve_br [] count = ([], count)"
| "clear_fields preserve_br (field # rest) count =
     (let result = stripFormatting field preserve_br in
      if result \<noteq> field
      then (case clear_fields preserve_br rest (count + 1) of
              (rest', count') \<Rightarrow> (result # rest', count'))
      else (case clear_fields preserve_br rest count of
              (rest', count') \<Rightarrow> (field # rest', count')))"

text \<open>The single-field branch for one note.\<close>

definition clear_field :: "bool \<Rightarrow> string \<Rightarrow> Note \<Rightarrow> nat \<Rightarrow> error + (Note \<times> nat)" where
  "clear_field preserve_br field_name n count =
     (case note_type n of
        None \<Rightarrow> Inl TypeError
      | Some field_names \<Rightarrow>
          if field_name \<in> set field_names then
            (case index field_names field_name of
               None \<Rightarrow> Inl ValueError
             | Some field_index \<Rightarrow>
                 if field_index < length (note_fields n) then
                   (let result = stripFormatting (note_fields n ! field_index) preserve_br in
                    if result \<noteq> note_fields n ! field_index
                    then Inr (n\<lparr>note_fields := (note_fields n)[field_index := result]\<rparr>, count + 1)
                    else Inr (n, count))
                 else Inl IndexError)
          else Inr (n, count))"

text \<open>The body of \<^verbatim>\<open>for nid in self._nids\<close> between fetching the note and flushing it.\<close>

definition clear_note :: "bool \<Rightarrow> bool \<Rightarrow> string \<Rightarrow> Note \<Rightarrow> nat \<Rightarrow> error + (Note \<times> nat)" where
  "clear_note clear_all preserve_br field_name n count =
     (if clear_all then
        (case clear_fields preserve_br (note_fields n) count of
           (fs, count') \<Rightarrow> Inr (n\<lparr>note_fields := fs\<rparr>, count'))
      else clear_field preserve_br field_name n count)"

text \<open>
  The loop over the selected notes. An exception leaves the loop with the host as the
  notes flushed so far have made it.
\<close>

fun apply_loop ::
  "bool \<Rightarrow> bool \<Rightarrow> string \<Rightarrow> note_id list \<Rightarrow> host \<Rightarrow> nat \<Rightarrow> host \<times> nat \<times> error option" where
  "apply_loop clear_all preserve_br field_name [] h count = (h, count, None)"
| "apply_loop clear_all preserve_br field_name (nid # nids) h count =
     (case col h nid of
        None \<Rightarrow> (h, count, Some NotFoundError)
      | Some n \<Rightarrow>
          (case clear_note clear_all preserve_br field_name n count of
             Inl e \<Rightarrow> (h, count, Some e)
           | Inr (n', count') \<Rightarrow>
               apply_loop clear_all preserve_br field_name nids (flush nid n' h) count'))"

text \<open>The two confirmation questions and the two closing tooltips.\<close>

definition question :: "bool \<Rightarrow> string \<Rightarrow> nat \<Rightarrow> string" where
  "question clear_all field_name k =
     (if clear_all then
        ''This will clear formatting in <b>ALL fields</b> of <b>'' @ str_nat k
          @ '' selected note(s)</b>. Proceed?''
      else
        ''This will clear formatting in the <b>'' @ [apostrophe] @ field_name @ [apostrophe]
          @ ''</b> field of <b>'' @ str_nat k @ '' selected note(s)</b>. Proceed?'')"

definition summary :: "bool \<Rightarrow> string \<Rightarrow> nat \<Rightarrow> string" where
  "summary clear_all field_name k =
     (if clear_all then
        ''<b>Cleared formatting</b> in '' @ str_nat k @ '' note(s).''
      else
        ''<b>Cleared formatting</b> in '' @ [apostrophe] @ field_name @ [apostrophe]
          @ '' field of '' @ str_nat k @ '' note(s).'')"

text \<open>
  \<^verbatim>\<open>ClearFormattingDialog.on_confirm\<close>. The dialog's widgets are parameters:
  \<open>clear_all\<close> and \<open>preserve_br\<close> are the two checkboxes, \<open>field_name\<close> is the field
  selector's current text, \<open>answer\<close> is what \<^verbatim>\<open>askUser\<close> returns.
\<close>

definition on_confirm ::
  "bool \<Rightarrow> bool \<Rightarrow> string \<Rightarrow> bool \<Rightarrow> note_id list \<Rightarrow> host \<Rightarrow> host \<times> error option" where
  "on_confirm clear_all preserve_br field_name answer nids h =
     (let h1 = call (AskUser (question clear_all field_name (length nids))) h in
      if \<not> answer then (h1, None)
      else
        (let h2 = call ProgressStart (call (Checkpoint ''Clear Formatting'') h1) in
         case apply_loop clear_all preserve_br field_name nids h2 0 of
           (h3, count, Some e) \<Rightarrow> (h3, Some e)
         | (h3, count, None) \<Rightarrow>
             (call (Tooltip (summary clear_all field_name (length nids)))
                (call Close (call Reset (call ProgressFinish h3))), None)))"

subsection \<open>The example of three notes\<close>

text \<open>
  Three selected notes: two with formatting in one field each, one with plain text only
  and a different note type.
\<close>

definition note_A :: Note where
  "note_A = \<lparr>note_fields = [''<b>A</b>'', ''B''], note_type = Some [''Front'', ''Back'']\<rparr>"

definition note_C :: Note where
  "note_C = \<lparr>note_fields = [''C'', ''<i>D</i>''], note_type = Some [''Front'', ''Back'']\<rparr>"

definition note_plain :: Note where
  "note_plain = \<lparr>note_fields = [''E'', ''F''], note_type = Some [''Text'', ''Extra'']\<rparr>"

definition example_host :: host where
  "example_host = \<lparr>col = [1 \<mapsto> note_A, 2 \<mapsto> note_C, 3 \<mapsto> note_plain], calls = []\<rparr>"

section \<open>Properties of the text stripper\<close>

subsection \<open>A stripped text has no match left\<close>

lemma no_match_fixed: "no_match alts s \<Longrightarrow> re_sub_tag alts s = s"
  by (induction s) auto

lemma dot_star_None_preserved:
  "dot_star_lazy_gt cs = None \<Longrightarrow> dot_star_lazy_gt (re_sub_tag alts cs) = None"
  by (induction cs) (auto simp: newline_def split: if_splits)

lemma prefix_preserved:
  "CHR ''<'' \<notin> set p \<Longrightarrow> prefix p cs \<Longrightarrow> prefix p (re_sub_tag alts cs)"
proof (induction p arbitrary: cs)
  case Nil
  then show ?case by simp
next
  case (Cons x xs)
  then obtain cs' where cs: "cs = x # cs'" and "prefix xs cs'"
    by (cases cs) auto
  with Cons show ?case by auto
qed

lemma lookahead_preserved:
  "list_all (\<lambda>p. CHR ''<'' \<notin> set p) alts \<Longrightarrow> lookahead alts cs \<Longrightarrow> lookahead alts (re_sub_tag alts cs)"
  unfolding lookahead_def list_ex_iff list_all_iff
  by (blast intro: prefix_preserved)

lemma no_match_re_sub_tag:
  "list_all (\<lambda>p. CHR ''<'' \<notin> set p) alts \<Longrightarrow> no_match alts (re_sub_tag alts s)"
proof (induction alts s rule: re_sub_tag.induct)
  case (1 alts)
  then show ?case by simp
next
  case (2 alts c cs)
  show ?case
  proof (cases "match_tag alts (c # cs)")
    case None
    with 2 have ih: "no_match alts (re_sub_tag alts cs)" by simp
    have "match_tag alts (c # re_sub_tag alts cs) = None"
      using None 2(3)
      by (auto split: if_splits intro: dot_star_None_preserved lookahead_preserved)
    with ih None show ?thesis by simp
  next
    case (Some rest)
    with 2 show ?thesis by simp
  qed
qed

lemma re_sub_tag_idem:
  "list_all (\<lambda>p. CHR ''<'' \<notin> set p) alts \<Longrightarrow> re_sub_tag alts (re_sub_tag alts s) = re_sub_tag alts s"
  by (rule no_match_fixed) (rule no_match_re_sub_tag)

text \<open>
  C6: stripping is idempotent: stripping a stripped text again, with the same flag,
  changes nothing.
\<close>

theorem stripFormatting_idempotent:
  "stripFormatting (stripFormatting s p) p = stripFormatting s p"
  by (simp add: stripFormatting_def re_sub_tag_idem)

subsection \<open>Texts without tags\<close>

lemma has_tag_iff:
  "has_tag s \<longleftrightarrow> (\<exists>i j. i < j \<and> j < length s \<and> s ! i = CHR ''<'' \<and> s ! j = CHR ''>'')"
proof (induction s)
  case Nil
  then show ?case by simp
next
  case (Cons c cs)
  show ?case
  proof (cases "c = CHR ''<''")
    case True
    have "CHR ''>'' \<in> set cs \<longleftrightarrow> (\<exists>j. 0 < j \<and> j < length (c # cs) \<and> (c # cs) ! j = CHR ''>'')"
      (is "?l \<longleftrightarrow> ?r")
    proof
      assume ?l
      then obtain k where "k < length cs" "cs ! k = CHR ''>''"
        by (auto simp: in_set_conv_nth)
      then have "0 < Suc k \<and> Suc k < length (c # cs) \<and> (c # cs) ! Suc k = CHR ''>''"
        by simp
      then show ?r by blast
    next
      assume ?r
      then obtain j where "0 < j" "j < length (c # cs)" "(c # cs) ! j = CHR ''>''"
        by blast
      then show ?l
        by (cases j) (auto simp: in_set_conv_nth)
    qed
    moreover have "?r \<longleftrightarrow> (\<exists>i j. i < j \<and> j < length (c # cs) \<and> (c # cs) ! i = CHR ''<'' \<and> (c # cs) ! j = CHR ''>'')"
      (is "_ \<longleftrightarrow> ?rr")
    proof
      assume ?r
      then show ?rr using True by (metis nth_Cons_0)
    next
      assume ?rr
      then obtain i j where "i < j" "j < length (c # cs)" "(c # cs) ! j = CHR ''>''"
        by blast
      then have "0 < j \<and> j < length (c # cs) \<and> (c # cs) ! j = CHR ''>''"
        by simp
      then show ?r by blast
    qed
    ultimately show ?thesis using True by simp
  next
    case False
    have "(\<exists>i j. i < j \<and> j < length cs \<and> cs ! i = CHR ''<'' \<and> cs ! j = CHR ''>'')
      \<longleftrightarrow> (\<exists>i j. i < j \<and> j < length (c # cs) \<and> (c # cs) ! i = CHR ''<'' \<and> (c # cs) ! j = CHR ''>'')"
      (is "?l \<longleftrightarrow> ?r")
    proof
      assume ?l
      then obtain i j where "i < j" "j < length cs" "cs ! i = CHR ''<''" "cs ! j = CHR ''>''"
        by blast
      then have "Suc i < Suc j \<and> Suc j < length (c # cs) \<and> (c # cs) ! Suc i = CHR ''<'' \<and> (c # cs) ! Suc j = CHR ''>''"
        by simp
      then show ?r by blast
    next
      assume ?r
      then obtain i j where ij: "i < j" "j < length (c # cs)" "(c # cs) ! i = CHR ''<''" "(c # cs) ! j = CHR ''>''"
        by blast
      with False obtain i' where i': "i = Suc i'" by (cases i) auto
      from ij obtain j' where j': "j = Suc j'" by (cases j) auto
      from ij i' j' have "i' < j' \<and> j' < length cs \<and> cs ! i' = CHR ''<'' \<and> cs ! j' = CHR ''>''"
        by simp
      then show ?l by blast
    qed
    with Cons False show ?thesis by simp
  qed
qed

lemma dot_star_no_gt: "CHR ''>'' \<notin> set cs \<Longrightarrow> dot_star_lazy_gt cs = None"
  by (induction cs) auto

lemma no_gt_no_match: "CHR ''>'' \<notin> set s \<Longrightarrow> no_match alts s"
  by (induction s) (auto simp: dot_star_no_gt)

lemma no_tag_no_match: "\<not> has_tag s \<Longrightarrow> no_match alts s"
  by (induction s) (auto simp: dot_star_no_gt no_gt_no_match split: if_splits)

text \<open>
  C7: a text with no substring of the form \<^verbatim>\<open><...>\<close> is returned unchanged, whatever
  the flag; the empty text gives the empty text.
\<close>

theorem stripFormatting_no_tag:
  assumes "\<not> has_tag s"
  shows "stripFormatting s p = s \<and> stripFormatting [] p = []"
  using assms by (simp add: stripFormatting_def no_tag_no_match no_match_fixed)

theorem stripFormatting_no_tag_witness:
  "\<not> has_tag ''a > b < c'' \<and> stripFormatting ''a > b < c'' True = ''a > b < c''
     \<and> stripFormatting [] True = []"
  using stripFormatting_no_tag [of "''a > b < c''" True] by simp

subsection \<open>The two versions of stripFormatting\<close>

text \<open>
  C10: the one-argument \<^verbatim>\<open>stripFormatting\<close> of \<^verbatim>\<open>__init__.py\<close> returns what the
  two-argument one of \<^verbatim>\<open>bulk_clear_formatting.py\<close> returns with \<^verbatim>\<open>preserve_br=False\<close>.
\<close>

theorem stripFormatting_legacy_eq:
  "stripFormatting_legacy txt = stripFormatting txt False"
  by (simp add: stripFormatting_legacy_def stripFormatting_def)

subsection \<open>Tags that are removed, tags that are kept\<close>

lemma dot_star_lazy_gt_body:
  "CHR ''>'' \<notin> set body \<Longrightarrow> newline \<notin> set body \<Longrightarrow>
   dot_star_lazy_gt (body @ CHR ''>'' # rest) = Some rest"
  by (induction body) auto

lemma re_sub_tag_removes:
  "\<not> lookahead alts (body @ CHR ''>'' # rest) \<Longrightarrow> CHR ''>'' \<notin> set body \<Longrightarrow>
   newline \<notin> set body \<Longrightarrow>
   re_sub_tag alts (CHR ''<'' # body @ CHR ''>'' # rest) = re_sub_tag alts rest"
  by (simp add: dot_star_lazy_gt_body)

lemma re_sub_tag_keeps_exempt:
  "lookahead alts cs \<Longrightarrow> re_sub_tag alts (CHR ''<'' # cs) = CHR ''<'' # re_sub_tag alts cs"
  by simp


text \<open>
  C4: a tag whose body contains a line feed is expected to be removed. The code keeps
  it: on \<^verbatim>\<open><b\<close>, line feed, \<^verbatim>\<open>>hi</b>\<close> only the closing tag goes.
\<close>

theorem stripFormatting_newline_in_tag:
  "stripFormatting (''<b'' @ [newline] @ ''>hi</b>'') False = ''<b'' @ [newline] @ ''>hi''
   \<and> stripFormatting (''<b'' @ [newline] @ ''>hi</b>'') True = ''<b'' @ [newline] @ ''>hi''"
  by (simp add: stripFormatting_def lookahead_def newline_def)

subsection \<open>The image tag\<close>










subsection \<open>Line-break tags\<close>




section \<open>Properties of the bulk-edit workflow\<close>

lemma clear_fields_eq:
  "clear_fields p fs count =
     (map (\<lambda>f. stripFormatting f p) fs,
      count + length (filter (\<lambda>f. stripFormatting f p \<noteq> f) fs))"
  by (induction fs arbitrary: count) (auto simp: Let_def)

lemma strip_examples:
  "stripFormatting ''<b>A</b>'' False = ''A''" "stripFormatting ''B'' False = ''B''"
  "stripFormatting ''C'' False = ''C''" "stripFormatting ''<i>D</i>'' False = ''D''"
  "stripFormatting ''E'' False = ''E''" "stripFormatting ''F'' False = ''F''"
  by (simp_all add: stripFormatting_def lookahead_def newline_def)

lemma apply_loop_calls:
  "snd (snd (apply_loop clear_all preserve_br field_name nids h count)) = None \<Longrightarrow>
   calls (fst (apply_loop clear_all preserve_br field_name nids h count)) = calls h @ map Flush nids"
proof (induction nids arbitrary: h count)
  case Nil
  then show ?case by simp
next
  case (Cons nid nids)
  then show ?case
    by (auto simp: flush_def split: option.splits sum.splits prod.splits)
qed

text \<open>
  C1, as amended: the loop flushes every selected note, once each and in the order of the
  selection, whether or not a field of it changed.
\<close>

theorem apply_loop_flushes_every_note:
  assumes "snd (snd (apply_loop clear_all preserve_br field_name nids h count)) = None"
  shows "calls (fst (apply_loop clear_all preserve_br field_name nids h count))
           = calls h @ map Flush nids"
  using assms by (rule apply_loop_calls)

theorem apply_loop_flushes_every_note_witness:
  "snd (snd (apply_loop True False [] [1, 2, 3] example_host 0)) = None
   \<and> calls (fst (apply_loop True False [] [1, 2, 3] example_host 0)) = [Flush 1, Flush 2, Flush 3]"
  using apply_loop_flushes_every_note [of True False "[]" "[1, 2, 3]" example_host 0]
  by (simp add: example_host_def note_A_def note_C_def note_plain_def clear_note_def
      strip_examples flush_def)

text \<open>
  C1, as stated, fails: the third note of the example has no field that stripping
  changes, and it is flushed all the same.
\<close>

theorem on_confirm_flushes_unchanged_note:
  "col example_host 3 = Some note_plain
   \<and> clear_fields False (note_fields note_plain) 0 = (note_fields note_plain, 0)
   \<and> Flush 3 \<in> set (calls (fst (on_confirm True False [] True [1, 2, 3] example_host)))"
  by (simp add: on_confirm_def call_def example_host_def note_A_def note_C_def note_plain_def
      clear_note_def strip_examples flush_def)

text \<open>
  C2: when the user does not confirm, the only call made to the host is the question
  itself: no note is fetched, changed or flushed, and the collection is what it was.
\<close>

theorem on_confirm_cancelled:
  "on_confirm clear_all preserve_br field_name False nids h
     = (h\<lparr>calls := calls h @ [AskUser (question clear_all field_name (length nids))]\<rparr>, None)
   \<and> col (fst (on_confirm clear_all preserve_br field_name False nids h)) = col h"
  by (simp add: on_confirm_def call_def)

text \<open>
  The calls made to the host when the loop has gone through the selection: the question,
  the checkpoint, the start of the progress dialog, one flush for each selected note, and
  the closing calls. The number in the tooltip is the size of the selection.
\<close>

lemma on_confirm_calls:
  assumes "snd (on_confirm clear_all preserve_br field_name True nids h) = None"
  shows "calls (fst (on_confirm clear_all preserve_br field_name True nids h))
      = calls h
        @ [AskUser (question clear_all field_name (length nids)),
           Checkpoint ''Clear Formatting'', ProgressStart]
        @ map Flush nids
        @ [ProgressFinish, Reset, Close,
           Tooltip (summary clear_all field_name (length nids))]"
proof -
  let ?h2 = "call ProgressStart (call (Checkpoint ''Clear Formatting'')
     (call (AskUser (question clear_all field_name (length nids))) h))"
  let ?r = "apply_loop clear_all preserve_br field_name nids ?h2 0"
  from assms have ok: "snd (snd ?r) = None"
    by (auto simp: on_confirm_def Let_def split: prod.splits option.splits)
  then have "calls (fst ?r) = calls ?h2 @ map Flush nids"
    by (rule apply_loop_calls)
  with ok show ?thesis
    by (auto simp: on_confirm_def Let_def call_def split: prod.splits option.splits)
qed

text \<open>
  C8: the summary is expected to state how many notes or fields were changed. The loop
  keeps that counter, and the tooltip does not use it: on the example 2 fields (in 2
  notes) are changed and the tooltip says 3 notes; with the plain note alone, nothing is
  changed and the tooltip says 1 note.
\<close>

theorem on_confirm_summary_ignores_count:
  "fst (snd (apply_loop True False [] [1, 2, 3] example_host 0)) = 2
   \<and> last (calls (fst (on_confirm True False [] True [1, 2, 3] example_host)))
       = Tooltip ''<b>Cleared formatting</b> in 3 note(s).''
   \<and> fst (snd (apply_loop True False [] [3] example_host 0)) = 0
   \<and> last (calls (fst (on_confirm True False [] True [3] example_host)))
       = Tooltip ''<b>Cleared formatting</b> in 1 note(s).''"
proof -
  have 1: "fst (snd (apply_loop True False [] [1, 2, 3] example_host 0)) = 2"
    by (simp add: example_host_def note_A_def note_C_def note_plain_def
      clear_note_def strip_examples flush_def)
  have 2: "last (calls (fst (on_confirm True False [] True [1, 2, 3] example_host)))
       = Tooltip ''<b>Cleared formatting</b> in 3 note(s).''"
    by (simp add: on_confirm_def call_def example_host_def note_A_def note_C_def note_plain_def
      clear_note_def strip_examples flush_def summary_def str_nat.simps digit_def)
  have 3: "fst (snd (apply_loop True False [] [3] example_host 0)) = 0"
    by (simp add: example_host_def note_A_def note_C_def note_plain_def
      clear_note_def strip_examples flush_def)
  have 4: "last (calls (fst (on_confirm True False [] True [3] example_host)))
       = Tooltip ''<b>Cleared formatting</b> in 1 note(s).''"
    by (simp add: on_confirm_def call_def example_host_def note_A_def note_C_def note_plain_def
      clear_note_def strip_examples flush_def summary_def str_nat.simps digit_def)
  from 1 2 3 4 show ?thesis by blast
qed

text \<open>
  C9: in single-field scope, a note whose note type has no field of the requested name
  is left as it is, no error is raised, and the loop goes on with the remaining notes.
\<close>

theorem apply_loop_skips_missing_field:
  assumes "col h nid = Some n" and "note_type n = Some field_names"
    and "field_name \<notin> set field_names"
  shows "clear_note False preserve_br field_name n count = Inr (n, count)
    \<and> col (flush nid n h) = col h
    \<and> apply_loop False preserve_br field_name (nid # nids) h count
        = apply_loop False preserve_br field_name nids (flush nid n h) count"
proof -
  have 1: "clear_note False preserve_br field_name n count = Inr (n, count)"
    using assms by (simp add: clear_note_def clear_field_def)
  have 2: "col (flush nid n h) = col h"
    using assms(1) by (auto simp: flush_def)
  from 1 2 assms(1) show ?thesis by simp
qed

theorem apply_loop_skips_missing_field_witness:
  "col example_host 3 = Some note_plain \<and> note_type note_plain = Some [''Text'', ''Extra'']
   \<and> ''Front'' \<notin> set [''Text'', ''Extra'']
   \<and> apply_loop False False ''Front'' [3, 1] example_host 0
        = (example_host\<lparr>col := (col example_host)(1 \<mapsto> note_A\<lparr>note_fields := [''A'', ''B'']\<rparr>),
             calls := [Flush 3, Flush 1]\<rparr>, 1, None)"
  using apply_loop_skips_missing_field [of example_host 3 note_plain "[''Text'', ''Extra'']" "''Front''" False 0 "[1]"]
  by (simp add: example_host_def note_A_def note_C_def note_plain_def clear_note_def clear_field_def
      strip_examples flush_def)

end
